theory Spec2Isabelle
  imports Main "HOL-Library.AList"
begin

section \<open>JavaScript strings\<close>

text \<open>
  A JavaScript string is a sequence of UTF-16 code units. The model covers the strings
  whose code units are below 256, one \<^typ>\<open>char\<close> per code unit (ASCII and Latin-1).
  The three characters that cannot be written inside a string literal get names.
\<close>

definition dquote :: char where
  "dquote = CHR 0x22"

definition backslash :: char where
  "backslash = CHR 0x5C"

definition newline :: char where
  "newline = CHR 0x0A"

text \<open>
  The class \<open>\s\<close> of a regular expression, which is also what \<open>trim()\<close> strips: tab, line
  feed, vertical tab, form feed, carriage return, space and no-break space (the members
  of the class below 256).
\<close>

definition is_space :: "char \<Rightarrow> bool" where
  "is_space c = (of_char c \<in> set [9, 10, 11, 12, 13, 32, 160 :: nat])"

text \<open>\<open>toLowerCase()\<close>: A-Z and the Latin-1 capitals (all of 0xC0-0xDE but 0xD7) move up by 32.\<close>

definition toLowerChar :: "char \<Rightarrow> char" where
  "toLowerChar c = (let n = (of_char c :: nat) in
     if (65 \<le> n \<and> n \<le> 90) \<or> (192 \<le> n \<and> n \<le> 222 \<and> n \<noteq> 215)
     then char_of (n + 32) else c)"

definition toLowerCase :: "string \<Rightarrow> string" where
  "toLowerCase s = map toLowerChar s"

text \<open>\<open>s.startsWith(k)\<close>, with the prefix as first argument.\<close>

fun starts_with :: "string \<Rightarrow> string \<Rightarrow> bool" where
  "starts_with [] s = True"
| "starts_with (k # ks) [] = False"
| "starts_with (k # ks) (c # cs) = (k = c \<and> starts_with ks cs)"

text \<open>\<open>s.includes(w)\<close>: \<open>w\<close> occurs in \<open>s\<close> as a contiguous substring.\<close>

fun str_includes :: "string \<Rightarrow> string \<Rightarrow> bool" where
  "str_includes [] w = (w = [])"
| "str_includes (c # cs) w = (starts_with w (c # cs) \<or> str_includes cs w)"

text \<open>
  \<open>s.split(sep)\<close> for a one-character separator: a string with \<open>n\<close> separators gives
  \<open>n + 1\<close> pieces, and the empty string gives one empty piece.
\<close>

fun split_on :: "char \<Rightarrow> string \<Rightarrow> string list" where
  "split_on sep [] = [[]]"
| "split_on sep (c # cs) =
     (if c = sep then [] # split_on sep cs
      else (case split_on sep cs of p # ps \<Rightarrow> (c # p) # ps | [] \<Rightarrow> [[c]]))"

text \<open>\<open>xs.join(sep)\<close>.\<close>

fun join :: "string \<Rightarrow> string list \<Rightarrow> string" where
  "join sep [] = []"
| "join sep [x] = x"
| "join sep (x # y # ys) = x @ sep @ join sep (y # ys)"

text \<open>\<open>s.trim()\<close>.\<close>

definition trim :: "string \<Rightarrow> string" where
  "trim s = rev (dropWhile is_space (rev (dropWhile is_space s)))"

text \<open>
  \<open>s.split(/\s+/)\<close>: the pieces between the maximal runs of white space; a leading or a
  trailing run leaves an empty piece at that end.
\<close>

function split_ws :: "string \<Rightarrow> string list" where
  "split_ws [] = [[]]"
| "split_ws (c # cs) =
     (if is_space c then [] # split_ws (dropWhile is_space cs)
      else (case split_ws cs of p # ps \<Rightarrow> (c # p) # ps | [] \<Rightarrow> [[c]]))"
  by pat_completeness auto
termination
  by (relation "measure length") (auto simp: le_imp_less_Suc length_dropWhile_le)

text \<open>\<open>s.replace(/"/g, '\\"')\<close>: a backslash goes in front of every double quote.\<close>

fun escape_quotes :: "string \<Rightarrow> string" where
  "escape_quotes [] = []"
| "escape_quotes (c # cs) =
     (if c = dquote then backslash # dquote # escape_quotes cs else c # escape_quotes cs)"

text \<open>
  \<open>s.replace(/\\"/g, '"')\<close>: every backslash followed by a double quote, found from the
  left, becomes the double quote alone.
\<close>

fun unescape_quotes :: "string \<Rightarrow> string" where
  "unescape_quotes (b # q # cs) =
     (if b = backslash \<and> q = dquote then dquote # unescape_quotes cs
      else b # unescape_quotes (q # cs))"
| "unescape_quotes cs = cs"

section \<open>The record codec\<close>

record Memory =
  ts :: string
  type :: string
  scope :: string
  content :: string
  issue :: "string option"
  tags :: "string list option"

text \<open>
  The regular expression \<open>/key=([^\s]+)/\<close>. At one position it matches when \<open>key=\<close> stands
  there and at least one character that is not white space follows; the group is the
  whole run of such characters (the quantifier is greedy and nothing follows it).
  \<open>line.match\<close> takes the leftmost position that matches.
\<close>

definition match_token_at :: "string \<Rightarrow> string \<Rightarrow> string option" where
  "match_token_at key s =
     (if starts_with key s
      then (let v = takeWhile (\<lambda>c. \<not> is_space c) (drop (length key) s)
            in if v = [] then None else Some v)
      else None)"

fun match_token :: "string \<Rightarrow> string \<Rightarrow> string option" where
  "match_token key [] = match_token_at key []"
| "match_token key (c # cs) =
     (case match_token_at key (c # cs) of Some v \<Rightarrow> Some v | None \<Rightarrow> match_token key cs)"

text \<open>
  The regular expression \<open>/content="([^"]*(?:\\"[^"]*)*)"/\<close>, matched the way a
  backtracking matcher does it. A greedy \<open>[^"]*\<close> is tried at its longest first, then one
  character shorter, down to empty: \<open>first_some\<close> over \<open>longest_first\<close>. The group
  \<open>(?:\\"[^"]*)*\<close> is tried with one more round first, and with no more round when every
  way of that round fails; after its last round the closing \<open>"\<close> must stand. A round
  takes at least two characters, so the number of rounds is below the length of the
  text, which bounds the recursion. The answer of \<open>rounds_then_quote\<close> is the number of
  characters the rounds took, and the group of the whole expression is what \<open>[^"]*\<close> and
  the rounds took together.
\<close>

fun first_some :: "('a \<Rightarrow> 'b option) \<Rightarrow> 'a list \<Rightarrow> 'b option" where
  "first_some f [] = None"
| "first_some f (x # xs) = (case f x of Some y \<Rightarrow> Some y | None \<Rightarrow> first_some f xs)"

definition longest_first :: "string \<Rightarrow> nat list" where
  "longest_first s = rev [0..<Suc (length (takeWhile (\<lambda>c. c \<noteq> dquote) s))]"

definition closing_quote :: "string \<Rightarrow> nat option" where
  "closing_quote r = (if starts_with [dquote] r then Some 0 else None)"

primrec rounds_then_quote :: "nat \<Rightarrow> string \<Rightarrow> nat option" where
  "rounds_then_quote 0 r = closing_quote r"
| "rounds_then_quote (Suc bound) r =
     (case (if starts_with [backslash, dquote] r
            then first_some
                   (\<lambda>n. map_option (\<lambda>g. 2 + n + g) (rounds_then_quote bound (drop (2 + n) r)))
                   (longest_first (drop 2 r))
            else None) of
        Some g \<Rightarrow> Some g
      | None \<Rightarrow> closing_quote r)"

definition content_group :: "string \<Rightarrow> string option" where
  "content_group body =
     first_some
       (\<lambda>n. map_option (\<lambda>g. take (n + g) body) (rounds_then_quote (length body) (drop n body)))
       (longest_first body)"

definition match_content_at :: "string \<Rightarrow> string option" where
  "match_content_at s =
     (if starts_with (''content='' @ [dquote]) s then content_group (drop 9 s) else None)"

text \<open>\<open>line.match\<close> takes the leftmost position at which the expression matches.\<close>

fun match_content :: "string \<Rightarrow> string option" where
  "match_content [] = None"
| "match_content (c # cs) =
     (case match_content_at (c # cs) of Some v \<Rightarrow> Some v | None \<Rightarrow> match_content cs)"

text \<open>
  \<open>parseLine\<close>. A group of \<open>[^\s]+\<close> is never empty, so \<open>!tsMatch?.[1]\<close> is the test
  that there is no match; an empty content group falls to \<open>""\<close> either way.
\<close>

definition parseLine :: "string \<Rightarrow> Memory option" where
  "parseLine line =
     (case (match_token ''ts='' line, match_token ''type='' line, match_token ''scope='' line) of
        (Some tsv, Some tyv, Some scv) \<Rightarrow>
          Some \<lparr> ts = tsv, type = tyv, scope = scv,
                 content = (case match_content line of
                              Some c \<Rightarrow> unescape_quotes c | None \<Rightarrow> []),
                 issue = match_token ''issue='' line,
                 tags = map_option (split_on CHR '','') (match_token ''tags='' line) \<rparr>
      | _ \<Rightarrow> None)"

text \<open>
  The line that \<open>remember\<close> and \<open>update\<close> build, without the line terminator:
  \<open>ts=${ts} type=${type} scope=${scope} content="${content}"${issue}${tags}\<close>, where an
  absent or empty issue and an absent or empty tag list add nothing.
\<close>

definition issue_str :: "string option \<Rightarrow> string" where
  "issue_str i = (case i of None \<Rightarrow> [] | Some v \<Rightarrow> if v = [] then [] else '' issue='' @ v)"

definition tags_str :: "string list option \<Rightarrow> string" where
  "tags_str t = (case t of None \<Rightarrow> []
                 | Some vs \<Rightarrow> if vs = [] then [] else '' tags='' @ join '','' vs)"

definition record_line ::
  "string \<Rightarrow> string \<Rightarrow> string \<Rightarrow> string \<Rightarrow> string option \<Rightarrow> string list option \<Rightarrow> string" where
  "record_line tsv tyv scv cont i t =
     ''ts='' @ tsv @ '' type='' @ tyv @ '' scope='' @ scv @
     '' content='' @ [dquote] @ escape_quotes cont @ [dquote] @ issue_str i @ tags_str t"

text \<open>Encoding a decoded record: the line \<open>remember\<close> writes for its fields.\<close>

definition encode :: "Memory \<Rightarrow> string" where
  "encode m = record_line (ts m) (type m) (scope m) (content m) (issue m) (tags m)"

section \<open>The ranking engine\<close>

text \<open>\<open>scoreMatch\<close>: the loop over the query words, with the score as accumulator.\<close>

definition searchable :: "Memory \<Rightarrow> string" where
  "searchable m =
     toLowerCase (type m @ '' '' @ scope m @ '' '' @ content m @ '' '' @
                  (case tags m of None \<Rightarrow> [] | Some vs \<Rightarrow> join '' '' vs))"

fun score_loop :: "Memory \<Rightarrow> string list \<Rightarrow> nat \<Rightarrow> nat" where
  "score_loop m [] score = score"
| "score_loop m (w # ws) score =
     (let s1 = (if str_includes (searchable m) w then score + 1 else score);
          s2 = (if toLowerCase (scope m) = w then s1 + 2 else s1);
          s3 = (if toLowerCase (type m) = w then s2 + 2 else s2)
      in score_loop m ws s3)"

definition scoreMatch :: "Memory \<Rightarrow> string list \<Rightarrow> nat" where
  "scoreMatch m ws = score_loop m ws 0"

text \<open>\<open>query.toLowerCase().split(/\s+/).filter(Boolean)\<close>.\<close>

definition tokenize :: "string \<Rightarrow> string list" where
  "tokenize q = filter (\<lambda>w. w \<noteq> []) (split_ws (toLowerCase q))"

text \<open>\<open>formatMemory\<close>, the line \<open>recall\<close> prints for a record.\<close>

definition first_piece :: "char \<Rightarrow> string \<Rightarrow> string" where
  "first_piece sep s = (case split_on sep s of p # ps \<Rightarrow> p | [] \<Rightarrow> [])"


section \<open>The world the plugin runs in\<close>

text \<open>
  Values of type \<open>unknown\<close> and the objects handed to \<open>JSON.stringify\<close>. An object is the
  list of its properties; writing a property that exists replaces its value where it
  stands, writing a new one appends it. Only look-ups by key are used below.
\<close>

datatype jsvalue =
    JUndefined
  | JNull
  | JBool bool
  | JNumber int
  | JString string
  | JArray "jsvalue list"
  | JObject "(string \<times> jsvalue) list"

type_synonym jsobject = "(string \<times> jsvalue) list"

record LoggerSettings =
  enabled :: bool
  scopes :: "string list"
  dir :: string

text \<open>
  The state the tools read and write: \<open>runtime.settings.logger\<close>, \<open>runtime.sessionAgents\<close>,
  and the two sets of files. \<open>mem_files\<close> holds the entries of the memory directory that
  the pattern \<open>*.logfmt\<close> selects, name and text, in the order the directory scan
  returns them. \<open>dir_exists\<close> is the answer of \<open>Bun.file(memoryDir).exists()\<close>: Bun
  answers whether a file stands at the path, and its answer for a path at which a
  directory stands is false, as for a path at which nothing stands. So \<open>dir_exists\<close> is
  \<open>False\<close> in every world whose memory directory is a directory, with or without files
  in it, and in every world that has none.
  \<open>log_files\<close> holds the files the logger writes, by path. The paths of the logger end
  in \<open>.jsonl\<close>, so they are no entry of \<open>mem_files\<close>, and the two sets are kept apart.
\<close>

record world =
  logger :: LoggerSettings
  sessionAgents :: "string \<rightharpoonup> string"
  dir_exists :: bool
  mem_files :: "(string \<times> string) list"
  log_files :: "(string \<times> string) list"

text \<open>
  What an operation takes from outside: \<open>now i\<close> is the answer of the \<open>i\<close>-th call of
  \<open>new Date().toISOString()\<close> that the operation makes, and \<open>stringify\<close> is
  \<open>JSON.stringify\<close>.
\<close>

record env =
  now :: "nat \<Rightarrow> string"
  stringify :: "jsvalue \<Rightarrow> string"

datatype memory_type = Decision | Learning | Preference | Blocker | Context | Pattern

fun type_name :: "memory_type \<Rightarrow> string" where
  "type_name Decision = ''decision''"
| "type_name Learning = ''learning''"
| "type_name Preference = ''preference''"
| "type_name Blocker = ''blocker''"
| "type_name Context = ''context''"
| "type_name Pattern = ''pattern''"

definition audit_file :: string where
  "audit_file = ''deletions.logfmt''"

text \<open>
  \<open>(await file.exists()) ? await file.text() : ""\<close>. The same function reads a file that
  a directory scan has just named, where the file is there.
\<close>

definition read_text :: "(string \<times> string) list \<Rightarrow> string \<Rightarrow> string" where
  "read_text fs name = (case map_of fs name of Some t \<Rightarrow> t | None \<Rightarrow> [])"

text \<open>
  \<open>ensureDir\<close>: where \<open>Bun.file(path).exists()\<close> answers false, \<open>mkdir -p\<close> makes the
  directory if it is missing. That puts no file into the directory, and the answer of
  \<open>Bun.file(path).exists()\<close> for the directory stays false.
\<close>

definition mkdir_p :: "world \<Rightarrow> world" where
  "mkdir_p w = w"

definition ensureDir :: "world \<Rightarrow> world" where
  "ensureDir w = (if \<not> dir_exists w then mkdir_p w else w)"

section \<open>The memory store\<close>

text \<open>\<open>getAllMemories\<close>.\<close>

definition scan_lines :: "string \<Rightarrow> string list" where
  "scan_lines text = filter (\<lambda>l. l \<noteq> []) (split_on newline (trim text))"

fun collect_lines :: "world \<Rightarrow> string list \<Rightarrow> string list \<Rightarrow> string list" where
  "collect_lines w [] lines = lines"
| "collect_lines w (filename # rest) lines =
     (if filename = audit_file then collect_lines w rest lines
      else collect_lines w rest (lines @ scan_lines (read_text (mem_files w) filename)))"

definition getAllMemories :: "world \<Rightarrow> Memory list" where
  "getAllMemories w =
     (if \<not> dir_exists w then []
      else (let files = map fst (mem_files w)
            in if files = [] then []
               else List.map_filter parseLine (collect_lines w files [])))"

text \<open>\<open>logDeletion\<close>: one line more at the end of the audit file.\<close>

definition logDeletion_line :: "string \<Rightarrow> Memory \<Rightarrow> string \<Rightarrow> string" where
  "logDeletion_line tsv m reason =
     ''ts='' @ tsv @ '' action=deleted original_ts='' @ ts m @ '' type='' @ type m @
     '' scope='' @ scope m @ '' content='' @ [dquote] @ escape_quotes (content m) @ [dquote] @
     '' reason='' @ [dquote] @ escape_quotes reason @ [dquote] @
     issue_str (issue m) @ tags_str (tags m) @ [newline]"

definition logDeletion :: "string \<Rightarrow> Memory \<Rightarrow> string \<Rightarrow> world \<Rightarrow> world" where
  "logDeletion tsv m reason w =
     (let w1 = ensureDir w;
          existing = read_text (mem_files w1) audit_file
      in w1\<lparr>mem_files :=
              AList.update audit_file (existing @ logDeletion_line tsv m reason) (mem_files w1)\<rparr>)"

text \<open>\<open>shouldLogScope\<close> and \<open>appendJsonLog\<close>.\<close>

definition shouldLogScope :: "LoggerSettings \<Rightarrow> string \<Rightarrow> bool" where
  "shouldLogScope lg sc =
     (if \<not> enabled lg then False
      else if scopes lg = [] then True
      else ''*'' \<in> set (scopes lg) \<or> sc \<in> set (scopes lg))"

definition appendJsonLog ::
  "(jsvalue \<Rightarrow> string) \<Rightarrow> string \<Rightarrow> string \<Rightarrow> jsobject \<Rightarrow> world \<Rightarrow> world" where
  "appendJsonLog str nowv sc payload w =
     (if \<not> shouldLogScope (logger w) sc then w
      else (let date = first_piece CHR ''T'' nowv;
                file = dir (logger w) @ ''/'' @ date @ ''.jsonl'';
                existing = read_text (log_files w) file
            in w\<lparr>log_files :=
                   AList.update file (existing @ str (JObject payload) @ [newline])
                     (log_files w)\<rparr>))"

text \<open>\<open>remember\<close>.\<close>

record remember_args =
  r_type :: memory_type
  r_scope :: string
  r_content :: string
  r_issue :: "string option"
  r_tags :: "string list option"






text \<open>
  \<open>.map(score).filter(score > 0).sort((a, b) => b.score - a.score)\<close>; the sort of the
  runtime is stable, as the insertion sort \<^const>\<open>sort_key\<close> is.
\<close>

definition rank :: "('a \<Rightarrow> Memory) \<Rightarrow> string list \<Rightarrow> 'a list \<Rightarrow> ('a \<times> nat) list" where
  "rank get ws xs =
     sort_key (\<lambda>x. - int (snd x))
       (filter (\<lambda>x. 0 < snd x) (map (\<lambda>x. (x, scoreMatch (get x) ws)) xs))"



text \<open>
  \<open>update\<close>. The scan keeps, for every line that decodes to the given scope and type,
  the record, the file and the index of the line.
\<close>

record update_args =
  u_scope :: string
  u_type :: memory_type
  u_content :: string
  u_query :: "string option"
  u_issue :: "string option"
  u_tags :: "string list option"

record match_entry =
  memory :: Memory
  filepath :: string
  lineIndex :: nat

text \<open>
  The answers of \<open>update\<close>: "No memory files found", "No memories found for ...",
  "Found n memories ..., but none matched query ...", "Found n memories .... Provide a
  query ...", and "Updated ...".
\<close>

datatype update_result =
    NoMemoryFiles
  | NotFound
  | NoneMatchedQuery nat
  | NeedQuery nat
  | Updated

definition line_match :: "string \<Rightarrow> string \<Rightarrow> string \<Rightarrow> Memory option" where
  "line_match sc ty line =
     (case parseLine line of
        None \<Rightarrow> None
      | Some m \<Rightarrow> if scope m = sc \<and> type m = ty then Some m else None)"

definition file_matches :: "string \<Rightarrow> string \<Rightarrow> string \<Rightarrow> string \<Rightarrow> match_entry list" where
  "file_matches sc ty filename text =
     List.map_filter
       (\<lambda>(i, line). map_option (\<lambda>m. \<lparr>memory = m, filepath = filename, lineIndex = i\<rparr>)
                      (line_match sc ty line))
       (enumerate 0 (split_on newline text))"

fun collect_matches ::
  "string \<Rightarrow> string \<Rightarrow> world \<Rightarrow> string list \<Rightarrow> match_entry list \<Rightarrow> match_entry list" where
  "collect_matches sc ty w [] matches = matches"
| "collect_matches sc ty w (filename # rest) matches =
     (if filename = audit_file then collect_matches sc ty w rest matches
      else collect_matches sc ty w rest
             (matches @ file_matches sc ty filename (read_text (mem_files w) filename)))"

text \<open>
  The choice of the target. \<open>matches[0]\<close> and \<open>scored[0]\<close> exist where the source reads
  them, so its last test \<open>!target\<close> never holds.
\<close>

definition pick_target :: "string option \<Rightarrow> match_entry list \<Rightarrow> update_result + match_entry" where
  "pick_target query matches =
     (case matches of
        [] \<Rightarrow> Inl NotFound
      | first # others \<Rightarrow>
          if 1 < length matches
          then (case query of
                  Some q \<Rightarrow>
                    if q \<noteq> []
                    then (case rank memory (tokenize q) matches of
                            [] \<Rightarrow> Inl (NoneMatchedQuery (length matches))
                          | best # lower \<Rightarrow> Inr (fst best))
                    else Inl (NeedQuery (length matches))
                | None \<Rightarrow> Inl (NeedQuery (length matches)))
          else Inr first)"

text \<open>
  \<open>lines[i] = v\<close>: inside the array the element is replaced; beyond its end the array
  grows, and the holes in between join as empty strings.
\<close>

definition set_line :: "string list \<Rightarrow> nat \<Rightarrow> string \<Rightarrow> string list" where
  "set_line lines i v =
     (if i < length lines then lines[i := v]
      else lines @ replicate (i - length lines) [] @ [v])"

definition inherit :: "'a option \<Rightarrow> 'a option \<Rightarrow> 'a option" where
  "inherit given original = (case given of Some v \<Rightarrow> Some v | None \<Rightarrow> original)"

definition update_newLine :: "string \<Rightarrow> update_args \<Rightarrow> Memory \<Rightarrow> string" where
  "update_newLine tsv a original =
     record_line tsv (type_name (u_type a)) (u_scope a) (u_content a)
       (inherit (u_issue a) (issue original)) (inherit (u_tags a) (tags original))"

definition rewrite_target :: "env \<Rightarrow> update_args \<Rightarrow> match_entry \<Rightarrow> world \<Rightarrow> world" where
  "rewrite_target e a target w =
     (let w1 = logDeletion (now e 0) (memory target) (''Updated to: '' @ u_content a) w;
          lines = split_on newline (read_text (mem_files w1) (filepath target));
          tsv = now e 1;
          newLine = update_newLine tsv a (memory target);
          w2 = w1\<lparr>mem_files :=
                   AList.update (filepath target)
                     (join [newline] (set_line lines (lineIndex target) newLine))
                     (mem_files w1)\<rparr>
      in appendJsonLog (stringify e) (now e 2) (u_scope a)
           [(''ts'', JString tsv), (''event'', JString ''memory_update''),
            (''scope'', JString (u_scope a)),
            (''memory_type'', JString (type_name (u_type a))),
            (''content'', JString (u_content a))] w2)"

definition update_matches :: "update_args \<Rightarrow> world \<Rightarrow> match_entry list" where
  "update_matches a w =
     collect_matches (u_scope a) (type_name (u_type a)) w (map fst (mem_files w)) []"

definition update :: "env \<Rightarrow> update_args \<Rightarrow> world \<Rightarrow> update_result \<times> world" where
  "update e a w =
     (if \<not> dir_exists w then (NoMemoryFiles, w)
      else if map fst (mem_files w) = [] then (NoMemoryFiles, w)
      else (case pick_target (u_query a) (update_matches a w) of
              Inl r \<Rightarrow> (r, w)
            | Inr target \<Rightarrow> (Updated, rewrite_target e a target w)))"









text \<open>
  \<open>forget\<close>. The filter over the lines of a file counts and collects the records it
  drops; a file is written back only when it lost a line. The audit lines follow when
  all files are done.
\<close>

record forget_args =
  f_scope :: string
  f_type :: memory_type
  f_reason :: string

text \<open>
  The answers of \<open>forget\<close>: "No memory files found", "No memories found for ...", and
  "Deleted n ... memory(s) from ...".
\<close>

datatype forget_result =
    FNoMemoryFiles
  | FNotFound
  | Deleted nat

definition dropped_records :: "string \<Rightarrow> string \<Rightarrow> string list \<Rightarrow> Memory list" where
  "dropped_records sc ty lines = List.map_filter (line_match sc ty) lines"

definition kept_lines :: "string \<Rightarrow> string \<Rightarrow> string list \<Rightarrow> string list" where
  "kept_lines sc ty lines = filter (\<lambda>line. line_match sc ty line = None) lines"

fun forget_files ::
  "string \<Rightarrow> string \<Rightarrow> string list \<Rightarrow> world \<times> nat \<times> Memory list \<Rightarrow> world \<times> nat \<times> Memory list" where
  "forget_files sc ty [] acc = acc"
| "forget_files sc ty (filename # rest) (w, deleted, deletedMemories) =
     (if filename = audit_file then forget_files sc ty rest (w, deleted, deletedMemories)
      else (let lines = split_on newline (read_text (mem_files w) filename);
                hits = dropped_records sc ty lines;
                filtered = kept_lines sc ty lines;
                w1 = (if length filtered \<noteq> length lines
                      then w\<lparr>mem_files :=
                               AList.update filename (join [newline] filtered) (mem_files w)\<rparr>
                      else w)
            in forget_files sc ty rest (w1, deleted + length hits, deletedMemories @ hits)))"

fun log_deletions :: "env \<Rightarrow> string \<Rightarrow> nat \<Rightarrow> Memory list \<Rightarrow> world \<Rightarrow> world" where
  "log_deletions e reason i [] w = w"
| "log_deletions e reason i (m # ms) w =
     log_deletions e reason (Suc i) ms (logDeletion (now e i) m reason w)"

definition forget :: "env \<Rightarrow> forget_args \<Rightarrow> world \<Rightarrow> forget_result \<times> world" where
  "forget e a w =
     (if \<not> dir_exists w then (FNoMemoryFiles, w)
      else (let files = map fst (mem_files w)
            in if files = [] then (FNoMemoryFiles, w)
               else (case forget_files (f_scope a) (type_name (f_type a)) files (w, 0, []) of
                       (w1, deleted, deletedMemories) \<Rightarrow>
                         (let n = length deletedMemories;
                              w2 = log_deletions e (f_reason a) 0 deletedMemories w1;
                              w3 = appendJsonLog (stringify e) (now e (Suc n)) (f_scope a)
                                     [(''ts'', JString (now e n)),
                                      (''event'', JString ''memory_forget''),
                                      (''scope'', JString (f_scope a)),
                                      (''memory_type'', JString (type_name (f_type a))),
                                      (''reason'', JString (f_reason a))] w2
                          in (if deleted = 0 then FNotFound else Deleted deleted, w3)))))"

section \<open>The event log\<close>

text \<open>
  \<open>buildLoggerEvent\<close>. The payload is spread last into the object literal, so each of
  its properties is written after the eight fixed ones.
\<close>

record event_input =
  sessionID :: string
  parentSessionID :: "string option"
  taskID :: "string option"
  agent :: "string option"
  payload :: "jsobject option"

definition or_null :: "string option \<Rightarrow> jsvalue" where
  "or_null v = (case v of Some s \<Rightarrow> if s = [] then JNull else JString s | None \<Rightarrow> JNull)"

definition nullable :: "string option \<Rightarrow> jsvalue" where
  "nullable v = (case v of Some s \<Rightarrow> JString s | None \<Rightarrow> JNull)"

definition spread :: "jsobject \<Rightarrow> jsobject \<Rightarrow> jsobject" where
  "spread obj props = foldl (\<lambda>acc (k, v). AList.update k v acc) obj props"

definition rootSessionID :: "event_input \<Rightarrow> string" where
  "rootSessionID inp =
     (case parentSessionID inp of
        Some p \<Rightarrow> if p = [] then sessionID inp else p
      | None \<Rightarrow> sessionID inp)"

definition buildLoggerEvent :: "string \<Rightarrow> string \<Rightarrow> event_input \<Rightarrow> jsobject" where
  "buildLoggerEvent nowv eventName inp =
     spread
       [(''ts'', JString nowv),
        (''event'', JString eventName),
        (''session_id'', JString (sessionID inp)),
        (''subagent_session_id'', JString (sessionID inp)),
        (''parent_session_id'', nullable (parentSessionID inp)),
        (''root_session_id'', JString (rootSessionID inp)),
        (''task_id'', or_null (taskID inp)),
        (''agent'', or_null (agent inp))]
       (case payload inp of Some props \<Rightarrow> props | None \<Rightarrow> [])"

text \<open>The three hooks of the plugin. None of them looks a session up: each passes \<open>null\<close> as parent.\<close>

record chat_input =
  c_sessionID :: string
  c_agent :: "string option"
  c_messageID :: jsvalue
  c_model :: jsvalue

definition chat_message :: "env \<Rightarrow> chat_input \<Rightarrow> jsvalue \<Rightarrow> world \<Rightarrow> world" where
  "chat_message e inp parts w =
     (let w1 = (case c_agent inp of
                  Some a \<Rightarrow>
                    if a \<noteq> [] then w\<lparr>sessionAgents := (sessionAgents w)(c_sessionID inp \<mapsto> a)\<rparr>
                    else w
                | None \<Rightarrow> w)
      in appendJsonLog (stringify e) (now e 1) ''chat''
           (buildLoggerEvent (now e 0) ''chat_message''
              \<lparr>sessionID = c_sessionID inp, parentSessionID = None, taskID = None,
               agent = c_agent inp,
               payload = Some [(''message_id'', c_messageID inp), (''model'', c_model inp),
                               (''parts'', parts)]\<rparr>)
           w1)"

record tool_input =
  t_sessionID :: string
  t_callID :: jsvalue
  t_tool :: jsvalue

definition scope_of :: "jsvalue \<Rightarrow> string" where
  "scope_of v =
     (case v of
        JObject props \<Rightarrow> (case map_of props ''scope'' of Some (JString s) \<Rightarrow> s | _ \<Rightarrow> ''tool'')
      | _ \<Rightarrow> ''tool'')"

definition tool_execute_before :: "env \<Rightarrow> tool_input \<Rightarrow> jsvalue \<Rightarrow> world \<Rightarrow> world" where
  "tool_execute_before e inp args w =
     appendJsonLog (stringify e) (now e 1) (scope_of args)
       (buildLoggerEvent (now e 0) ''tool_execute_before''
          \<lparr>sessionID = t_sessionID inp, parentSessionID = None, taskID = None,
           agent = sessionAgents w (t_sessionID inp),
           payload = Some [(''call_id'', t_callID inp), (''tool'', t_tool inp),
                           (''args'', args)]\<rparr>)
       w"

definition tool_execute_after ::
  "env \<Rightarrow> tool_input \<Rightarrow> jsvalue \<Rightarrow> jsvalue \<Rightarrow> jsvalue \<Rightarrow> world \<Rightarrow> world" where
  "tool_execute_after e inp metadata title outputv w =
     appendJsonLog (stringify e) (now e 1) (scope_of metadata)
       (buildLoggerEvent (now e 0) ''tool_execute_after''
          \<lparr>sessionID = t_sessionID inp, parentSessionID = None, taskID = None,
           agent = sessionAgents w (t_sessionID inp),
           payload = Some [(''call_id'', t_callID inp), (''tool'', t_tool inp),
                           (''title'', title), (''output'', outputv)]\<rparr>)
       w"

section \<open>Notions for the statements\<close>

text \<open>
  What \<open>forget\<close> leaves of a file, the records it takes from a list of files, and the
  lines it adds to the audit file for a list of records, the \<open>i\<close>-th call of the clock
  first.
\<close>

definition without_matches :: "string \<Rightarrow> string \<Rightarrow> string \<Rightarrow> string" where
  "without_matches sc ty filetext = join [newline] (kept_lines sc ty (split_on newline filetext))"

definition removed_from :: "string \<Rightarrow> string \<Rightarrow> world \<Rightarrow> string list \<Rightarrow> Memory list" where
  "removed_from sc ty w files =
     concat (map (\<lambda>filename.
                    if filename = audit_file then []
                    else dropped_records sc ty
                           (split_on newline (read_text (mem_files w) filename)))
                 files)"




text \<open>The eight fixed fields of an event, before the payload is spread into it.\<close>

definition envelope :: "string \<Rightarrow> string \<Rightarrow> event_input \<Rightarrow> jsobject" where
  "envelope nowv eventName inp =
     [(''ts'', JString nowv),
      (''event'', JString eventName),
      (''session_id'', JString (sessionID inp)),
      (''subagent_session_id'', JString (sessionID inp)),
      (''parent_session_id'', nullable (parentSessionID inp)),
      (''root_session_id'', JString (rootSessionID inp)),
      (''task_id'', or_null (taskID inp)),
      (''agent'', or_null (agent inp))]"

definition envelope_keys :: "string list" where
  "envelope_keys = [''ts'', ''event'', ''session_id'', ''subagent_session_id'',
                    ''parent_session_id'', ''root_session_id'', ''task_id'', ''agent'']"

definition payload_props :: "event_input \<Rightarrow> jsobject" where
  "payload_props inp = (case payload inp of Some props \<Rightarrow> props | None \<Rightarrow> [])"

text \<open>
  Following the words of the specification: the parent chain of a session is the list of
  its ancestors, the parent first; the nearest ancestor without a parent is the last of
  the chain, and the session itself when the chain is empty.
\<close>

definition nearest_root :: "string \<Rightarrow> string list \<Rightarrow> string" where
  "nearest_root sid ancestors = last (sid # ancestors)"

section \<open>Concrete inputs\<close>



definition good_line :: string where
  "good_line = ''ts=2026-02-21T10:00:00.000Z type=decision scope=auth content='' @ [dquote] @
               ''use sessions'' @ [dquote]"

definition bad_line :: string where
  "bad_line = ''ts=2026-02-21T10:01:00.000Z type=decision content='' @ [dquote] @
              ''no scope here'' @ [dquote]"

definition good_record :: Memory where
  "good_record = \<lparr>ts = ''2026-02-21T10:00:00.000Z'', type = ''decision'', scope = ''auth'',
                  content = ''use sessions'', issue = None, tags = None\<rparr>"

definition quiet_logger :: LoggerSettings where
  "quiet_logger = \<lparr>enabled = False, scopes = [], dir = ''/repo/.opencode/logs/memory''\<rparr>"

definition two_line_world :: world where
  "two_line_world =
     \<lparr>logger = quiet_logger, sessionAgents = Map.empty, dir_exists = False,
      mem_files = [(''2026-02-21.logfmt'',
                    good_line @ [newline] @ bad_line @ [newline, newline])],
      log_files = []\<rparr>"

definition quoted_line :: string where
  "quoted_line = ''ts=2026-02-21T10:00:00.000Z type=decision scope=auth content='' @ [dquote] @
                 ''say '' @ [backslash, dquote] @ ''hi'' @ [backslash, dquote] @ [dquote]"

definition quoted_args :: remember_args where
  "quoted_args = \<lparr>r_type = Decision, r_scope = ''auth'',
                  r_content = ''say '' @ [dquote] @ ''hi'' @ [dquote],
                  r_issue = None, r_tags = None\<rparr>"

definition env0 :: env where
  "env0 = \<lparr>now = (\<lambda>i. if i = 0 then ''2026-02-22T09:00:00.000Z''
                        else if i = 1 then ''2026-02-22T09:00:00.001Z''
                        else ''2026-02-22T09:00:00.002Z''),
           stringify = (\<lambda>v. ''{}'')\<rparr>"

definition blocker_x1 :: string where
  "blocker_x1 = ''ts=2026-02-20T08:00:00.000Z type=blocker scope=x content='' @ [dquote] @
                ''ci is red'' @ [dquote]"

definition decision_x :: string where
  "decision_x = ''ts=2026-02-20T08:30:00.000Z type=decision scope=x content='' @ [dquote] @
                ''use bun'' @ [dquote] @ '' issue=#7''"

definition blocker_x2 :: string where
  "blocker_x2 = ''ts=2026-02-21T08:00:00.000Z type=blocker scope=x content='' @ [dquote] @
                ''deploy key missing'' @ [dquote] @ '' tags=ops,keys''"

definition old_audit :: string where
  "old_audit = ''ts=2026-02-19T08:00:00.000Z action=deleted original_ts=2026-02-18T08:00:00.000Z type=context scope=y content='' @
               [dquote] @ ''old'' @ [dquote] @ '' reason='' @ [dquote] @ ''stale'' @ [dquote] @ [newline]"

definition forget_world :: world where
  "forget_world =
     \<lparr>logger = quiet_logger, sessionAgents = Map.empty, dir_exists = False,
      mem_files = [(''2026-02-20.logfmt'', blocker_x1 @ [newline] @ decision_x @ [newline]),
                   (''deletions.logfmt'', old_audit),
                   (''2026-02-21.logfmt'', blocker_x2 @ [newline])],
      log_files = []\<rparr>"

definition forget_x_blocker :: forget_args where
  "forget_x_blocker = \<lparr>f_scope = ''x'', f_type = Blocker, f_reason = ''resolved''\<rparr>"

definition record_x1 :: Memory where
  "record_x1 = \<lparr>ts = ''2026-02-20T08:00:00.000Z'', type = ''blocker'', scope = ''x'',
                content = ''ci is red'', issue = None, tags = None\<rparr>"

definition record_x2 :: Memory where
  "record_x2 = \<lparr>ts = ''2026-02-21T08:00:00.000Z'', type = ''blocker'', scope = ''x'',
                content = ''deploy key missing'', issue = None, tags = Some [''ops'', ''keys'']\<rparr>"

definition api_redis :: string where
  "api_redis = ''ts=2026-02-20T08:00:00.000Z type=decision scope=api content='' @ [dquote] @
               ''use redis cache'' @ [dquote] @ '' issue=#12 tags=cache''"

definition api_grpc :: string where
  "api_grpc = ''ts=2026-02-20T09:00:00.000Z type=decision scope=api content='' @ [dquote] @
              ''rest over grpc'' @ [dquote]"

definition auth_tokens :: string where
  "auth_tokens = ''ts=2026-02-21T08:00:00.000Z type=learning scope=auth content='' @ [dquote] @
                 ''tokens expire'' @ [dquote]"

definition update_world :: world where
  "update_world =
     \<lparr>logger = quiet_logger, sessionAgents = Map.empty, dir_exists = False,
      mem_files = [(''2026-02-20.logfmt'', api_redis @ [newline] @ api_grpc @ [newline]),
                   (''deletions.logfmt'', old_audit),
                   (''2026-02-21.logfmt'', auth_tokens @ [newline])],
      log_files = []\<rparr>"

definition record_redis :: Memory where
  "record_redis = \<lparr>ts = ''2026-02-20T08:00:00.000Z'', type = ''decision'', scope = ''api'',
                   content = ''use redis cache'', issue = Some ''#12'', tags = Some [''cache'']\<rparr>"

definition record_tokens :: Memory where
  "record_tokens = \<lparr>ts = ''2026-02-21T08:00:00.000Z'', type = ''learning'', scope = ''auth'',
                    content = ''tokens expire'', issue = None, tags = None\<rparr>"

definition match_redis :: match_entry where
  "match_redis = \<lparr>memory = record_redis, filepath = ''2026-02-20.logfmt'', lineIndex = 0\<rparr>"

definition match_tokens :: match_entry where
  "match_tokens = \<lparr>memory = record_tokens, filepath = ''2026-02-21.logfmt'', lineIndex = 0\<rparr>"

definition record_grpc :: Memory where
  "record_grpc = \<lparr>ts = ''2026-02-20T09:00:00.000Z'', type = ''decision'', scope = ''api'',
                  content = ''rest over grpc'', issue = None, tags = None\<rparr>"

definition match_grpc :: match_entry where
  "match_grpc = \<lparr>memory = record_grpc, filepath = ''2026-02-20.logfmt'', lineIndex = 1\<rparr>"

definition upd_auth :: update_args where
  "upd_auth = \<lparr>u_scope = ''auth'', u_type = Learning, u_content = ''tokens expire after 1h'',
               u_query = None, u_issue = None, u_tags = None\<rparr>"

definition upd_api :: "string option \<Rightarrow> update_args" where
  "upd_api q = \<lparr>u_scope = ''api'', u_type = Decision, u_content = ''use valkey cache'',
                u_query = q, u_issue = None, u_tags = None\<rparr>"



definition overwriting_input :: event_input where
  "overwriting_input =
     \<lparr>sessionID = ''ses_123'', parentSessionID = None, taskID = Some ''task_77'',
      agent = Some ''codex'',
      payload = Some [(''tool'', JString ''read''), (''session_id'', JString ''ses_999'')]\<rparr>"

definition loud_logger :: LoggerSettings where
  "loud_logger = \<lparr>enabled = True, scopes = [''*''], dir = ''/repo/.opencode/logs/memory''\<rparr>"

definition logging_world :: world where
  "logging_world =
     \<lparr>logger = loud_logger, sessionAgents = Map.empty, dir_exists = False,
      mem_files = [], log_files = []\<rparr>"

definition chat_main :: chat_input where
  "chat_main = \<lparr>c_sessionID = ''ses_main'', c_agent = Some ''main'',
                c_messageID = JString ''msg_1'',
                c_model = JObject [(''providerID'', JString ''openai''),
                                   (''modelID'', JString ''gpt-5'')]\<rparr>"

definition chat_sub :: chat_input where
  "chat_sub = \<lparr>c_sessionID = ''ses_sub'', c_agent = Some ''explore'',
               c_messageID = JString ''msg_sub'',
               c_model = JObject [(''providerID'', JString ''openai''),
                                  (''modelID'', JString ''gpt-5'')]\<rparr>"

definition tool_sub :: tool_input where
  "tool_sub = \<lparr>t_sessionID = ''ses_sub'', t_callID = JString ''call_1'',
               t_tool = JString ''memory_remember''\<rparr>"

definition tool_sub_args :: jsvalue where
  "tool_sub_args = JObject [(''scope'', JString ''auth''), (''content'', JString ''x''),
                            (''type'', JString ''decision'')]"

definition telescope_line :: string where
  "telescope_line = ''original_ts=5 memory_type=a telescope=b''"

definition empty_scope_args :: remember_args where
  "empty_scope_args = \<lparr>r_type = Decision, r_scope = [], r_content = ''use scope=global here'',
                       r_issue = None, r_tags = None\<rparr>"

definition empty_scope_line :: string where
  "empty_scope_line = ''ts=2026-02-22T09:00:00.000Z type=decision scope= content='' @ [dquote] @
                      ''use scope=global here'' @ [dquote]"

section \<open>Properties\<close>

subsection \<open>Strings\<close>

lemma longest_first_Cons:
  "longest_first s = length (takeWhile (\<lambda>c. c \<noteq> dquote) s) #
                       rev [0..<length (takeWhile (\<lambda>c. c \<noteq> dquote) s)]"
  by (simp add: longest_first_def)

lemma first_some_None: "(\<And>x. x \<in> set xs \<Longrightarrow> f x = None) \<Longrightarrow> first_some f xs = None"
  by (induction xs) auto

lemma starts_with_in_set: "starts_with (k # ks) r \<Longrightarrow> k \<in> set r"
  by (cases r) auto

lemma rounds_no_quote: "dquote \<notin> set r \<Longrightarrow> rounds_then_quote bound r = None"
proof (induction bound arbitrary: r)
  case 0
  then show ?case
    by (cases r) (auto simp: closing_quote_def)
next
  case (Suc bound)
  have c: "closing_quote r = None"
    using Suc.prems by (cases r) (auto simp: closing_quote_def)
  have "\<not> starts_with [backslash, dquote] r"
  proof
    assume "starts_with [backslash, dquote] r"
    then obtain r' where "r = backslash # dquote # r'"
      by (cases r; cases "tl r") auto
    then show False using Suc.prems by simp
  qed
  then show ?case using c by simp
qed

lemma rounds_at_quote: "rounds_then_quote bound (dquote # r) = Some 0"
proof -
  have "dquote \<noteq> backslash" by (simp add: dquote_def backslash_def)
  then show ?thesis by (cases bound) (simp_all add: closing_quote_def)
qed

lemma content_group_quoted:
  "content_group (''say '' @ [backslash, dquote] @ ''hi'' @ [backslash, dquote] @ [dquote]) =
     Some (''say '' @ [backslash])"
  by code_simp

lemma content_group_simple:
  "content_group body =
     (if dquote \<in> set body then Some (takeWhile (\<lambda>c. c \<noteq> dquote) body) else None)"
proof (cases "dquote \<in> set body")
  case True
  let ?run = "takeWhile (\<lambda>c. c \<noteq> dquote) body"
  have ne: "dropWhile (\<lambda>c. c \<noteq> dquote) body \<noteq> []"
    using True by (simp add: dropWhile_eq_Nil_conv)
  then have "\<not> (hd (dropWhile (\<lambda>c. c \<noteq> dquote) body) \<noteq> dquote)"
    by (rule hd_dropWhile)
  then obtain rest where "dropWhile (\<lambda>c. c \<noteq> dquote) body = dquote # rest"
    using ne by (cases "dropWhile (\<lambda>c. c \<noteq> dquote) body") auto
  then have "drop (length ?run) body = dquote # rest"
    by (simp add: dropWhile_eq_drop)
  then have "rounds_then_quote (length body) (drop (length ?run) body) = Some 0"
    by (simp add: rounds_at_quote)
  then show ?thesis
    using True by (simp add: content_group_def longest_first_Cons takeWhile_eq_take [symmetric])
next
  case False
  have "rounds_then_quote (length body) (drop n body) = None" for n
    using False by (intro rounds_no_quote) (auto dest: in_set_dropD)
  then show ?thesis
    using False by (simp add: content_group_def first_some_None)
qed

text \<open>
  So the group is the text up to the first double quote after \<open>content="\<close>, whether
  or not a backslash stands before that quote.
\<close>

lemma match_content_at_simple:
  "match_content_at s =
     (if starts_with (''content='' @ [dquote]) s
      then (let body = drop 9 s; v = takeWhile (\<lambda>c. c \<noteq> dquote) body
            in if dquote \<in> set body then Some v else None)
      else None)"
  by (simp add: match_content_at_def content_group_simple Let_def)

lemma starts_with_iff: "starts_with k s \<longleftrightarrow> (\<exists>r. s = k @ r)"
  by (induction k s rule: starts_with.induct) auto



lemma match_token_at_starts: "match_token_at k s = Some v \<Longrightarrow> starts_with k s"
  by (simp add: match_token_at_def split: if_splits)

lemma match_token_includes: "match_token k s = Some v \<Longrightarrow> str_includes s k"
proof (induction s)
  case Nil
  then show ?case
    by (auto dest!: match_token_at_starts simp: starts_with_iff)
next
  case (Cons c cs)
  then show ?case
    by (auto dest!: match_token_at_starts split: option.splits)
qed


subsection \<open>Ranking\<close>

lemma toLowerCase_append: "toLowerCase (a @ b) = toLowerCase a @ toLowerCase b"
  by (simp add: toLowerCase_def)













subsection \<open>Decoding\<close>

lemma match_token_none: "\<not> str_includes s k \<Longrightarrow> match_token k s = None"
  using match_token_includes [of k s] by (cases "match_token k s") auto

lemma starts_with_length: "starts_with k s \<Longrightarrow> length k \<le> length s"
  by (auto simp: starts_with_iff)

lemma starts_with_extend:
  "sp \<notin> set k \<Longrightarrow> starts_with k (l @ sp # r) = starts_with k l"
  by (induction k l rule: starts_with.induct) auto

lemma takeWhile_stop: "\<not> P y \<Longrightarrow> takeWhile P (xs @ y # ys) = takeWhile P xs"
  by (induction xs) auto

lemma match_token_at_extend:
  assumes "is_space sp" and "\<forall>c \<in> set k. \<not> is_space c"
  shows "match_token_at k (l @ sp # r) = match_token_at k l"
proof -
  have sp: "sp \<notin> set k" using assms by auto
  show ?thesis
  proof (cases "starts_with k l")
    case True
    then have "length k \<le> length l" by (rule starts_with_length)
    then have "drop (length k) (l @ sp # r) = drop (length k) l @ sp # r" by simp
    then show ?thesis
      using True assms(1) sp by (simp add: match_token_at_def starts_with_extend takeWhile_stop)
  next
    case False
    then show ?thesis using sp by (simp add: match_token_at_def starts_with_extend)
  qed
qed

lemma match_token_Nil: "match_token k [] = None"
  by (cases k) (simp_all add: match_token_at_def)

lemma match_token_skip_space:
  assumes "is_space sp" and "\<forall>c \<in> set k. \<not> is_space c"
  shows "match_token k (sp # r) = match_token k r"
proof -
  have "match_token_at k (sp # r) = None"
    using assms by (cases k) (auto simp: match_token_at_def)
  then show ?thesis by simp
qed

lemma match_token_extend:
  assumes "is_space sp" and "\<forall>c \<in> set k. \<not> is_space c"
  shows "match_token k (l @ sp # r) =
           (case match_token k l of Some v \<Rightarrow> Some v | None \<Rightarrow> match_token k r)"
proof (induction l)
  case Nil
  have "match_token k (sp # r) = match_token k r"
    using assms by (rule match_token_skip_space)
  moreover have "match_token k [] = None" by (rule match_token_Nil)
  ultimately show ?case by (simp del: match_token.simps)
next
  case (Cons c cs)
  have "match_token_at k ((c # cs) @ sp # r) = match_token_at k (c # cs)"
    using assms by (rule match_token_at_extend)
  then show ?case using Cons.IH by (simp split: option.splits)
qed

lemma match_token_unknown:
  assumes "is_space sp" and "\<forall>c \<in> set k. \<not> is_space c" and "\<not> str_includes r k"
  shows "match_token k (l @ sp # r) = match_token k l"
  using match_token_extend [OF assms(1,2), of l r] match_token_none [OF assms(3)]
  by (simp split: option.splits)

lemma content_key_chars: "\<forall>c \<in> set (''content='' @ [dquote]). \<not> is_space c"
  by code_simp

lemma space_not_dquote: "is_space sp \<Longrightarrow> sp \<noteq> dquote"
  using content_key_chars by auto

lemma match_content_at_extend:
  assumes "is_space sp" and "dquote \<notin> set r"
  shows "match_content_at (l @ sp # r) = match_content_at l"
proof -
  have sp: "sp \<notin> set (''content='' @ [dquote])" using assms(1) content_key_chars by blast
  have ne: "sp \<noteq> dquote" using assms(1) by (rule space_not_dquote)
  show ?thesis
  proof (cases "starts_with (''content='' @ [dquote]) l")
    case True
    then have "length (''content='' @ [dquote]) \<le> length l" by (rule starts_with_length)
    then have d: "drop 9 (l @ sp # r) = drop 9 l @ sp # r" by simp
    have st: "starts_with (''content='' @ [dquote]) (l @ sp # r)"
      using True sp starts_with_extend by blast
    show ?thesis
    proof (cases "dquote \<in> set (drop 9 l)")
      case in_body: True
      then have "takeWhile (\<lambda>c. c \<noteq> dquote) (drop 9 l @ sp # r) =
                 takeWhile (\<lambda>c. c \<noteq> dquote) (drop 9 l)"
        by (simp add: takeWhile_append1)
      then show ?thesis
        using True st in_body d unfolding match_content_at_simple Let_def by simp
    next
      case False
      then show ?thesis
        using True st d ne assms(2) unfolding match_content_at_simple Let_def by simp
    qed
  next
    case False
    moreover have "\<not> starts_with (''content='' @ [dquote]) (l @ sp # r)"
      using False sp starts_with_extend by blast
    ultimately show ?thesis unfolding match_content_at_simple by simp
  qed
qed

lemma match_content_has_quote: "match_content s = Some v \<Longrightarrow> dquote \<in> set s"
proof (induction s)
  case Nil
  then show ?case by simp
next
  case (Cons c cs)
  show ?case
  proof (cases "match_content_at (c # cs)")
    case None
    with Cons show ?thesis by simp
  next
    case (Some u)
    then have "dquote \<in> set (drop 9 (c # cs))"
      by (auto simp: match_content_at_simple Let_def split: if_splits)
    then show ?thesis by (meson in_set_dropD)
  qed
qed

lemma match_content_extend:
  assumes "is_space sp" and "dquote \<notin> set r"
  shows "match_content (l @ sp # r) = match_content l"
proof (induction l)
  case Nil
  have "dquote \<notin> set (sp # r)" using assms space_not_dquote by auto
  then have "match_content (sp # r) = None"
    using match_content_has_quote [of "sp # r"] by (cases "match_content (sp # r)") auto
  then show ?case by simp
next
  case (Cons c cs)
  have "match_content_at ((c # cs) @ sp # r) = match_content_at (c # cs)"
    using assms by (rule match_content_at_extend)
  then show ?case using Cons.IH by (simp split: option.splits)
qed

lemma key_chars:
  "\<forall>k \<in> set [''ts='', ''type='', ''scope='', ''issue='', ''tags=''].
     \<forall>c \<in> set k. \<not> is_space c"
  by code_simp

lemma parseLine_unknown_token:
  assumes "is_space sp" and "dquote \<notin> set extra"
    and "\<forall>k \<in> set [''ts='', ''type='', ''scope='', ''issue='', ''tags=''].
           \<not> str_includes extra k"
  shows "parseLine (line @ sp # extra) = parseLine line"
proof -
  have tok: "match_token k (line @ sp # extra) = match_token k line"
    if "k \<in> set [''ts='', ''type='', ''scope='', ''issue='', ''tags='']" for k
    using that assms(1,3) key_chars by (intro match_token_unknown) blast+
  have t1: "match_token ''ts='' (line @ sp # extra) = match_token ''ts='' line"
    by (rule tok) simp
  have t2: "match_token ''type='' (line @ sp # extra) = match_token ''type='' line"
    by (rule tok) simp
  have t3: "match_token ''scope='' (line @ sp # extra) = match_token ''scope='' line"
    by (rule tok) simp
  have t4: "match_token ''issue='' (line @ sp # extra) = match_token ''issue='' line"
    by (rule tok) simp
  have t5: "match_token ''tags='' (line @ sp # extra) = match_token ''tags='' line"
    by (rule tok) simp
  have c: "match_content (line @ sp # extra) = match_content line"
    using assms(1,2) by (rule match_content_extend)
  show ?thesis unfolding parseLine_def t1 t2 t3 t4 t5 c by (rule refl)
qed

lemma parseLine_missing_field:
  assumes "\<not> str_includes line ''ts='' \<or> \<not> str_includes line ''type=''
           \<or> \<not> str_includes line ''scope=''"
  shows "parseLine line = None"
  using assms match_token_none
  by (auto simp: parseLine_def split: option.splits)

lemma split_on_not_Nil: "split_on sep s \<noteq> []"
  by (induction s) (auto split: list.splits)

lemma join_Cons: "ys \<noteq> [] \<Longrightarrow> join sep (x # ys) = x @ sep @ join sep ys"
  by (cases ys) simp_all


lemma split_on_no_sep: "sep \<notin> set l \<Longrightarrow> split_on sep l = [l]"
  by (induction l) auto

lemma split_on_append: "sep \<notin> set l \<Longrightarrow> split_on sep (l @ sep # r) = l # split_on sep r"
  by (induction l) auto

lemma split_on_join:
  "ls \<noteq> [] \<Longrightarrow> \<forall>l \<in> set ls. sep \<notin> set l \<Longrightarrow> split_on sep (join [sep] ls) = ls"
proof (induction ls)
  case Nil
  then show ?case by simp
next
  case (Cons l ls)
  show ?case
  proof (cases ls)
    case Nil
    then show ?thesis using Cons.prems by (simp add: split_on_no_sep)
  next
    case (Cons l2 ls2)
    then have "join [sep] (l # ls) = l @ sep # join [sep] ls" by simp
    moreover have "split_on sep (join [sep] ls) = ls"
      using Cons Cons.IH Cons.prems by simp
    ultimately show ?thesis using Cons.prems by (simp add: split_on_append)
  qed
qed

lemma trim_append_blank:
  assumes "\<forall>c \<in> set r. is_space c"
  shows "trim (text @ r) = trim text"
proof (cases "\<forall>c \<in> set text. is_space c")
  case True
  then have a: "dropWhile is_space (text @ r) = []"
    using assms unfolding dropWhile_eq_Nil_conv by auto
  have b: "dropWhile is_space text = []"
    using True unfolding dropWhile_eq_Nil_conv by auto
  show ?thesis unfolding trim_def a b by (rule refl)
next
  case False
  then obtain x where "x \<in> set text" "\<not> is_space x" by blast
  then have a: "dropWhile is_space (text @ r) = dropWhile is_space text @ r"
    by (rule dropWhile_append1)
  have b: "dropWhile is_space (rev r @ ys) = dropWhile is_space ys" for ys
    using assms by (intro dropWhile_append2) auto
  show ?thesis unfolding trim_def a rev_append b by (rule refl)
qed

lemma trim_id:
  assumes "s \<noteq> []" and "\<not> is_space (hd s)" and "\<not> is_space (last s)"
  shows "trim s = s"
proof -
  have "dropWhile is_space s = s" using assms(1,2) by (cases s) auto
  moreover have "dropWhile is_space (rev s) = rev s"
    using assms(1,3) by (cases "rev s") (auto simp: last_rev hd_rev dest: arg_cong [where f = hd])
  ultimately show ?thesis by (simp add: trim_def)
qed

lemma scan_lines_blank:
  "\<forall>c \<in> set blank. is_space c \<Longrightarrow> scan_lines (text @ blank) = scan_lines text"
  by (simp add: scan_lines_def trim_append_blank)

lemma parseLine_Nil: "parseLine [] = None"
  by (simp add: parseLine_def match_token_Nil del: match_token.simps)

lemma scan_two_lines:
  assumes "good \<noteq> []" and "bad \<noteq> []"
    and "\<not> is_space (hd good)" and "\<not> is_space (last bad)"
    and "newline \<notin> set good" and "newline \<notin> set bad"
    and "\<forall>c \<in> set blank. is_space c"
  shows "scan_lines (good @ [newline] @ bad @ blank) = [good, bad]"
proof -
  let ?t = "good @ [newline] @ bad"
  have "trim ?t = ?t" using assms(1-4) by (intro trim_id) (auto simp: hd_append)
  moreover have "?t = join [newline] [good, bad]" by simp
  moreover have "split_on newline (join [newline] [good, bad]) = [good, bad]"
    using assms(5,6) by (intro split_on_join) auto
  ultimately have "scan_lines ?t = [good, bad]"
    using assms(1,2) by (simp add: scan_lines_def)
  moreover have "scan_lines (?t @ blank) = scan_lines ?t"
    using assms(7) by (rule scan_lines_blank)
  ultimately show ?thesis by simp
qed

lemma getAllMemories_two_lines:
  assumes "dir_exists w" and "mem_files w = [(name, good @ [newline] @ bad @ blank)]"
    and "name \<noteq> audit_file" and "parseLine good = Some m" and "parseLine bad = None"
    and "bad \<noteq> []" and "\<not> is_space (hd good)" and "\<not> is_space (last bad)"
    and "newline \<notin> set good" and "newline \<notin> set bad"
    and "\<forall>c \<in> set blank. is_space c"
  shows "getAllMemories w = [m]"
proof -
  have "good \<noteq> []" using assms(4) parseLine_Nil by auto
  then have "scan_lines (good @ [newline] @ bad @ blank) = [good, bad]"
    using assms by (intro scan_two_lines) auto
  then show ?thesis
    using assms(1-5) by (simp add: getAllMemories_def read_text_def List.map_filter_simps)
qed

text \<open>
  Claim C5, at the file of the claim and at two lines that miss a field. The file has
  one line that decodes and one line without a scope, and two blank lines after them;
  it is the one day file of the memory directory. Its text is read as the two lines,
  the first of which decodes to its record and the second to nothing. But the scan of
  the directory gives no record at all: \<open>getAllMemories\<close> returns the empty list at its
  test of \<open>Bun.file(memoryDir).exists()\<close>, whose answer for a directory is false, before
  it reads any file. Then the two lines. No token of
  \<open>original_ts=5 memory_type=a telescope=b\<close> starts with \<open>ts=\<close>, \<open>type=\<close> or \<open>scope=\<close>, yet
  the line decodes, to the timestamp \<open>5\<close>, the type \<open>a\<close> and the scope \<open>b\<close>: the three
  patterns are found inside longer tokens. And the line that \<open>remember\<close> writes for an
  empty scope and the content \<open>use scope=global here\<close>, whose scope field is empty,
  decodes to a record of scope \<open>global\<close>, taken from inside the content.
\<close>

theorem getAllMemories_stops_at_directory_test:
  "\<not> dir_exists two_line_world
   \<and> mem_files two_line_world =
       [(''2026-02-21.logfmt'', good_line @ [newline] @ bad_line @ [newline, newline])]
   \<and> scan_lines (good_line @ [newline] @ bad_line @ [newline, newline]) = [good_line, bad_line]
   \<and> parseLine good_line = Some good_record
   \<and> parseLine bad_line = None
   \<and> getAllMemories two_line_world = []
   \<and> filter (\<lambda>tok. starts_with ''ts='' tok \<or> starts_with ''type='' tok
                     \<or> starts_with ''scope='' tok) (split_ws telescope_line) = []
   \<and> parseLine telescope_line =
       Some \<lparr>ts = ''5'', type = ''a'', scope = ''b'', content = [], issue = None, tags = None\<rparr>
   \<and> record_line ''2026-02-22T09:00:00.000Z'' (type_name (r_type empty_scope_args))
        (r_scope empty_scope_args) (r_content empty_scope_args) (r_issue empty_scope_args)
        (r_tags empty_scope_args) = empty_scope_line
   \<and> map_option scope (parseLine empty_scope_line) = Some ''global''"
  by code_simp

text \<open>
  Claim C1, at a record whose content holds double quotes. \<open>remember\<close> writes the content
  \<open>say "hi"\<close> as \<open>content="say \"hi\""\<close>. Decoding that line stops the content at the
  first double quote, the escaped one, and gives \<open>say \<close> followed by a backslash; encoding
  the decoded record gives a line that ends in \<open>content="say \"\<close>, which is not the line
  that was decoded.
\<close>

theorem quoted_content_not_restored:
  "record_line ''2026-02-21T10:00:00.000Z'' (type_name (r_type quoted_args)) (r_scope quoted_args)
     (r_content quoted_args) (r_issue quoted_args) (r_tags quoted_args) = quoted_line
   \<and> map_option content (parseLine quoted_line) = Some (''say '' @ [backslash])
   \<and> map_option encode (parseLine quoted_line) =
       Some (''ts=2026-02-21T10:00:00.000Z type=decision scope=auth content='' @ [dquote] @
             ''say '' @ [backslash] @ [dquote])
   \<and> map_option encode (parseLine quoted_line) \<noteq> Some quoted_line"
  by code_simp

subsection \<open>Forgetting\<close>

lemma split_on_pieces: "p \<in> set (split_on sep s) \<Longrightarrow> sep \<notin> set p"
proof (induction s arbitrary: p)
  case Nil
  then show ?case by simp
next
  case (Cons c cs)
  obtain q qs where q: "split_on sep cs = q # qs"
    using split_on_not_Nil [of sep cs] by (cases "split_on sep cs") auto
  show ?case
  proof (cases "c = sep")
    case True
    then show ?thesis using Cons by auto
  next
    case False
    then have "p = c # q \<or> p \<in> set qs" using Cons.prems q by simp
    moreover have "sep \<notin> set q" using Cons.IH q by simp
    moreover have "p \<in> set qs \<Longrightarrow> sep \<notin> set p" using Cons.IH q by simp
    ultimately show ?thesis using False by auto
  qed
qed


lemma line_match_Nil: "line_match sc ty [] = None"
  by (simp add: line_match_def parseLine_Nil)

lemma without_matches_clean:
  assumes "l \<in> set (split_on newline (without_matches sc ty t))"
  shows "line_match sc ty l = None"
proof (cases "kept_lines sc ty (split_on newline t) = []")
  case True
  then have "without_matches sc ty t = []" by (simp add: without_matches_def)
  then show ?thesis using assms by (simp add: line_match_Nil)
next
  case False
  have "\<forall>p \<in> set (kept_lines sc ty (split_on newline t)). newline \<notin> set p"
    by (auto simp: kept_lines_def dest: split_on_pieces)
  then have "split_on newline (without_matches sc ty t) = kept_lines sc ty (split_on newline t)"
    unfolding without_matches_def using False by (intro split_on_join)
  then show ?thesis using assms by (simp add: kept_lines_def)
qed







lemma logDeletion_log_files: "log_files (logDeletion tsv m reason w) = log_files w"
  by (simp add: logDeletion_def ensureDir_def mkdir_p_def Let_def)

lemma logDeletion_logger: "logger (logDeletion tsv m reason w) = logger w"
  by (simp add: logDeletion_def ensureDir_def mkdir_p_def Let_def)





text \<open>
  Claim C3, at a memory directory with two day files and the audit file. Two lines, one
  in each day file, decode to the scope \<open>x\<close> and the type \<open>blocker\<close>. \<open>forget\<close> for that
  scope and type answers "No memory files found" and returns the world it was given:
  both lines stay in their files and the audit file gets no line. \<open>forget\<close> returns at
  its test of \<open>Bun.file(memoryDir).exists()\<close>, whose answer for a directory is false,
  before it reads any file.
\<close>

theorem forget_stops_at_directory_test:
  "\<not> dir_exists forget_world
   \<and> mem_files forget_world =
       [(''2026-02-20.logfmt'', blocker_x1 @ [newline] @ decision_x @ [newline]),
        (''deletions.logfmt'', old_audit),
        (''2026-02-21.logfmt'', blocker_x2 @ [newline])]
   \<and> parseLine blocker_x1 = Some record_x1
   \<and> parseLine blocker_x2 = Some record_x2
   \<and> removed_from (f_scope forget_x_blocker) (type_name (f_type forget_x_blocker))
        forget_world (map fst (mem_files forget_world)) = [record_x1, record_x2]
   \<and> forget e forget_x_blocker forget_world = (FNoMemoryFiles, forget_world)"
proof -
  have a: "\<not> dir_exists forget_world" by code_simp
  have b: "mem_files forget_world =
       [(''2026-02-20.logfmt'', blocker_x1 @ [newline] @ decision_x @ [newline]),
        (''deletions.logfmt'', old_audit),
        (''2026-02-21.logfmt'', blocker_x2 @ [newline])]" by code_simp
  have c: "parseLine blocker_x1 = Some record_x1" by code_simp
  have d: "parseLine blocker_x2 = Some record_x2" by code_simp
  have r: "removed_from (f_scope forget_x_blocker) (type_name (f_type forget_x_blocker))
        forget_world (map fst (mem_files forget_world)) = [record_x1, record_x2]" by code_simp
  have f: "forget e forget_x_blocker forget_world = (FNoMemoryFiles, forget_world)"
    using a by (simp add: forget_def)
  show ?thesis by (intro conjI a b c d r f)
qed

subsection \<open>Updating\<close>







lemma pick_target_single: "pick_target q [x] = Inr x"
  by (simp add: pick_target_def)


lemma sort_key_Nil_iff: "sort_key k ys = [] \<longleftrightarrow> ys = []"
proof
  assume "sort_key k ys = []"
  then have "length (sort_key k ys) = 0" by simp
  then have "length ys = 0" by (simp only: length_sort)
  then show "ys = []" by simp
next
  assume "ys = []"
  then show "sort_key k ys = []" by simp
qed

lemma rank_Nil_iff: "rank get ws xs = [] \<longleftrightarrow> (\<forall>x \<in> set xs. scoreMatch (get x) ws = 0)"
proof -
  have "rank get ws xs = [] \<longleftrightarrow>
        filter (\<lambda>x. 0 < snd x) (map (\<lambda>x. (x, scoreMatch (get x) ws)) xs) = []"
    unfolding rank_def by (rule sort_key_Nil_iff)
  also have "\<dots> \<longleftrightarrow> (\<forall>x \<in> set xs. scoreMatch (get x) ws = 0)"
    by (induction xs) auto
  finally show ?thesis .
qed

lemma rank_head:
  assumes "rank get ws xs = best # lower"
  shows "fst best \<in> set xs"
    and "snd best = scoreMatch (get (fst best)) ws"
    and "0 < scoreMatch (get (fst best)) ws"
    and "\<forall>x \<in> set xs. scoreMatch (get x) ws \<le> scoreMatch (get (fst best)) ws"
    and "List.find (\<lambda>x. scoreMatch (get x) ws = scoreMatch (get (fst best)) ws) xs = Some (fst best)"
proof -
  let ?ys = "filter (\<lambda>x. 0 < snd x) (map (\<lambda>x. (x, scoreMatch (get x) ws)) xs)"
  let ?key = "\<lambda>x :: 'a \<times> nat. - int (snd x)"
  have r: "sort_key ?key ?ys = best # lower" using assms by (simp add: rank_def)
  have "best \<in> set (sort_key ?key ?ys)" using r by simp
  then have mem: "best \<in> set ?ys" by simp
  then show b1: "fst best \<in> set xs" and b2: "snd best = scoreMatch (get (fst best)) ws"
    and b3: "0 < scoreMatch (get (fst best)) ws" by auto
  have "sorted (map ?key (sort_key ?key ?ys))" by (rule sorted_sort_key)
  then have "\<forall>y \<in> set lower. ?key best \<le> ?key y" using r by simp
  moreover have "set (sort_key ?key ?ys) = insert best (set lower)"
    unfolding r by simp
  then have "set ?ys = insert best (set lower)" by (simp only: set_sort)
  ultimately have le: "\<forall>y \<in> set ?ys. snd y \<le> snd best" by auto
  show b4: "\<forall>x \<in> set xs. scoreMatch (get x) ws \<le> scoreMatch (get (fst best)) ws"
  proof
    fix x assume x: "x \<in> set xs"
    show "scoreMatch (get x) ws \<le> scoreMatch (get (fst best)) ws"
    proof (cases "0 < scoreMatch (get x) ws")
      case True
      then have "(x, scoreMatch (get x) ws) \<in> set ?ys" using x by auto
      then show ?thesis using le b2 by fastforce
    next
      case False
      then show ?thesis by simp
    qed
  qed
  have "filter (\<lambda>y. ?key y = ?key best) (sort_key ?key ?ys) = filter (\<lambda>y. ?key y = ?key best) ?ys"
    by (rule sort_key_stable)
  then have "filter (\<lambda>y. ?key y = ?key best) ?ys = best # filter (\<lambda>y. ?key y = ?key best) lower"
    using r by simp
  then have f: "filter (\<lambda>y. snd y = snd best) ?ys = best # filter (\<lambda>y. snd y = snd best) lower"
    by simp
  have pos: "0 < snd best" using b2 b3 by simp
  have "filter (\<lambda>y. snd y = snd best) ?ys =
        map (\<lambda>x. (x, scoreMatch (get x) ws))
          (filter (\<lambda>x. scoreMatch (get x) ws = snd best) xs)"
    using pos by (induction xs) auto
  then obtain zs where "filter (\<lambda>x. scoreMatch (get x) ws = snd best) xs = fst best # zs"
    using f by (cases "filter (\<lambda>x. scoreMatch (get x) ws = snd best) xs") auto
  then have "List.find (\<lambda>x. scoreMatch (get x) ws = snd best) xs = Some (fst best)"
    by (induction xs) (auto split: if_splits)
  then show "List.find (\<lambda>x. scoreMatch (get x) ws = scoreMatch (get (fst best)) ws) xs
               = Some (fst best)"
    using b2 by simp
qed


lemma update_matches_no_files: "mem_files w = [] \<Longrightarrow> update_matches a w = []"
  by (simp add: update_matches_def)


lemma update_single:
  assumes "dir_exists w" and "update_matches a w = [t]"
  shows "update e a w = (Updated, rewrite_target e a t w)"
proof -
  have "mem_files w \<noteq> []" using assms(2) update_matches_no_files by fastforce
  then show ?thesis using assms by (simp add: update_def pick_target_single)
qed


lemma pick_target_query:
  assumes "1 < length ms" and "q \<noteq> []"
  shows "pick_target (Some q) ms =
           (case rank memory (tokenize q) ms of
              [] \<Rightarrow> Inl (NoneMatchedQuery (length ms))
            | best # lower \<Rightarrow> Inr (fst best))"
  using assms by (cases ms) (auto simp: pick_target_def)


lemma update_best:
  assumes "dir_exists w" and "1 < length (update_matches a w)"
    and "u_query a = Some q" and "q \<noteq> []"
    and "\<not> (\<forall>x \<in> set (update_matches a w). scoreMatch (memory x) (tokenize q) = 0)"
  shows "\<exists>t. t \<in> set (update_matches a w)
             \<and> 0 < scoreMatch (memory t) (tokenize q)
             \<and> (\<forall>x \<in> set (update_matches a w).
                    scoreMatch (memory x) (tokenize q) \<le> scoreMatch (memory t) (tokenize q))
             \<and> List.find (\<lambda>x. scoreMatch (memory x) (tokenize q) =
                               scoreMatch (memory t) (tokenize q)) (update_matches a w) = Some t
             \<and> update e a w = (Updated, rewrite_target e a t w)"
proof -
  have ne: "mem_files w \<noteq> []" using assms(2) update_matches_no_files by fastforce
  have "rank memory (tokenize q) (update_matches a w) \<noteq> []"
    using assms(5) by (simp add: rank_Nil_iff)
  then obtain best lower where r: "rank memory (tokenize q) (update_matches a w) = best # lower"
    by (cases "rank memory (tokenize q) (update_matches a w)") auto
  then have "pick_target (u_query a) (update_matches a w) = Inr (fst best)"
    using assms(2,3,4) by (simp add: pick_target_query)
  then have "update e a w = (Updated, rewrite_target e a (fst best) w)"
    using assms(1) ne by (simp add: update_def)
  then show ?thesis using rank_head [OF r] by blast
qed

text \<open>
  Claim C2, at a memory directory with two day files and the audit file. One line
  decodes to the scope \<open>auth\<close> and the type \<open>learning\<close>; it is the one match of \<open>update\<close>
  for them. Two lines decode to the scope \<open>api\<close> and the type \<open>decision\<close>; they are the
  two matches for them, and the query \<open>Redis\<close> scores 1 on the first and 0 on the second.
  For the single match, for the two matches without a query and for the two matches
  with that query, \<open>update\<close> answers "No memory files found" and returns the world it was
  given: no line is rewritten, no audit line is written, and the two matches are not
  reported. \<open>update\<close> returns at its test of \<open>Bun.file(memoryDir).exists()\<close>, whose answer
  for a directory is false, before it reads any file.
\<close>

theorem update_stops_at_directory_test:
  "\<not> dir_exists update_world
   \<and> mem_files update_world =
       [(''2026-02-20.logfmt'', api_redis @ [newline] @ api_grpc @ [newline]),
        (''deletions.logfmt'', old_audit),
        (''2026-02-21.logfmt'', auth_tokens @ [newline])]
   \<and> update_matches upd_auth update_world = [match_tokens]
   \<and> update e upd_auth update_world = (NoMemoryFiles, update_world)
   \<and> update_matches (upd_api None) update_world = [match_redis, match_grpc]
   \<and> update e (upd_api None) update_world = (NoMemoryFiles, update_world)
   \<and> update_matches (upd_api (Some ''Redis'')) update_world = [match_redis, match_grpc]
   \<and> scoreMatch record_redis (tokenize ''Redis'') = 1
   \<and> scoreMatch record_grpc (tokenize ''Redis'') = 0
   \<and> update e (upd_api (Some ''Redis'')) update_world = (NoMemoryFiles, update_world)"
proof -
  have a: "\<not> dir_exists update_world" by code_simp
  have b: "mem_files update_world =
       [(''2026-02-20.logfmt'', api_redis @ [newline] @ api_grpc @ [newline]),
        (''deletions.logfmt'', old_audit),
        (''2026-02-21.logfmt'', auth_tokens @ [newline])]" by code_simp
  have m1: "update_matches upd_auth update_world = [match_tokens]" by code_simp
  have m2: "update_matches (upd_api None) update_world = [match_redis, match_grpc]"
    by code_simp
  have m3: "update_matches (upd_api (Some ''Redis'')) update_world = [match_redis, match_grpc]"
    by code_simp
  have s1: "scoreMatch record_redis (tokenize ''Redis'') = 1" by code_simp
  have s2: "scoreMatch record_grpc (tokenize ''Redis'') = 0" by code_simp
  have u: "update e x update_world = (NoMemoryFiles, update_world)" for x
    using a by (simp add: update_def)
  show ?thesis by (intro conjI a b m1 m2 m3 s1 s2 u)
qed






subsection \<open>The audit file\<close>































subsection \<open>Events\<close>

lemma spread_lookup:
  "map_of (spread obj props) k =
     (case map_of (rev props) k of Some v \<Rightarrow> Some v | None \<Rightarrow> map_of obj k)"
proof (induction props arbitrary: obj)
  case Nil
  show ?case by (simp add: spread_def)
next
  case (Cons p ps)
  obtain k' v' where p: "p = (k', v')" by (cases p)
  have "spread obj (p # ps) = spread (AList.update k' v' obj) ps"
    by (simp add: spread_def p)
  then have "map_of (spread obj (p # ps)) k =
      (case map_of (rev ps) k of Some v \<Rightarrow> Some v | None \<Rightarrow> map_of (AList.update k' v' obj) k)"
    using Cons.IH by simp
  then show ?case
    by (simp add: p update_conv' map_add_def split: option.splits)
qed

lemma buildLoggerEvent_spread:
  "buildLoggerEvent nowv eventName inp = spread (envelope nowv eventName inp) (payload_props inp)"
  by (simp add: buildLoggerEvent_def envelope_def payload_props_def)

lemma map_of_rev_None: "map_of (rev props) k = None \<longleftrightarrow> map_of props k = None"
  by (simp add: map_of_eq_None_iff)

lemma map_of_rev_distinct:
  assumes "distinct (map fst props)"
  shows "map_of (rev props) k = map_of props k"
proof (cases "map_of props k")
  case None
  then show ?thesis by (simp add: map_of_rev_None)
next
  case (Some v)
  then have "(k, v) \<in> set (rev props)" by (simp add: map_of_SomeD)
  moreover have "distinct (map fst (rev props))" using assms by (simp add: rev_map [symmetric])
  ultimately have "map_of (rev props) k = Some v" by (intro map_of_is_SomeI)
  then show ?thesis using Some by simp
qed

lemma envelope_lookup:
  "map_of (envelope nowv eventName inp) ''ts'' = Some (JString nowv)"
  "map_of (envelope nowv eventName inp) ''event'' = Some (JString eventName)"
  "map_of (envelope nowv eventName inp) ''session_id'' = Some (JString (sessionID inp))"
  "map_of (envelope nowv eventName inp) ''subagent_session_id'' = Some (JString (sessionID inp))"
  "map_of (envelope nowv eventName inp) ''parent_session_id'' = Some (nullable (parentSessionID inp))"
  "map_of (envelope nowv eventName inp) ''root_session_id'' = Some (JString (rootSessionID inp))"
  "map_of (envelope nowv eventName inp) ''task_id'' = Some (or_null (taskID inp))"
  "map_of (envelope nowv eventName inp) ''agent'' = Some (or_null (agent inp))"
  by (simp_all add: envelope_def)

lemma envelope_has_keys: "k \<in> set envelope_keys \<Longrightarrow> map_of (envelope nowv eventName inp) k \<noteq> None"
  by (auto simp: envelope_keys_def envelope_def)

text \<open>
  Claim C7, as amended. The event that \<open>buildLoggerEvent\<close> builds has each of the eight
  fixed keys and every property of the payload at its top level. A property of the
  payload is in the event with the value the payload gives it, also when its key is one
  of the eight: the payload is spread last. A key that the payload does not set has the
  value of the envelope.
\<close>

theorem buildLoggerEvent_payload_last:
  "(\<forall>k \<in> set envelope_keys. map_of (buildLoggerEvent nowv eventName inp) k \<noteq> None)
   \<and> (map_of (payload_props inp) k = None \<longrightarrow>
        map_of (buildLoggerEvent nowv eventName inp) k = map_of (envelope nowv eventName inp) k)
   \<and> (distinct (map fst (payload_props inp)) \<and> map_of (payload_props inp) k = Some v \<longrightarrow>
        map_of (buildLoggerEvent nowv eventName inp) k = Some v)
   \<and> map_of (envelope nowv eventName inp) ''ts'' = Some (JString nowv)
   \<and> map_of (envelope nowv eventName inp) ''event'' = Some (JString eventName)
   \<and> map_of (envelope nowv eventName inp) ''session_id'' = Some (JString (sessionID inp))
   \<and> map_of (envelope nowv eventName inp) ''subagent_session_id'' = Some (JString (sessionID inp))
   \<and> map_of (envelope nowv eventName inp) ''parent_session_id'' =
       Some (case parentSessionID inp of Some p \<Rightarrow> JString p | None \<Rightarrow> JNull)
   \<and> map_of (envelope nowv eventName inp) ''root_session_id'' = Some (JString (rootSessionID inp))
   \<and> map_of (envelope nowv eventName inp) ''task_id'' =
       Some (case taskID inp of Some x \<Rightarrow> if x = [] then JNull else JString x | None \<Rightarrow> JNull)
   \<and> map_of (envelope nowv eventName inp) ''agent'' =
       Some (case agent inp of Some x \<Rightarrow> if x = [] then JNull else JString x | None \<Rightarrow> JNull)"
proof (intro conjI impI ballI)
  fix key
  assume "key \<in> set envelope_keys"
  then have "map_of (envelope nowv eventName inp) key \<noteq> None" by (rule envelope_has_keys)
  then show "map_of (buildLoggerEvent nowv eventName inp) key \<noteq> None"
    unfolding buildLoggerEvent_spread spread_lookup by (auto split: option.splits)
next
  assume "map_of (payload_props inp) k = None"
  then have "map_of (rev (payload_props inp)) k = None" by (simp add: map_of_rev_None)
  then show "map_of (buildLoggerEvent nowv eventName inp) k = map_of (envelope nowv eventName inp) k"
    unfolding buildLoggerEvent_spread spread_lookup by simp
next
  assume "distinct (map fst (payload_props inp)) \<and> map_of (payload_props inp) k = Some v"
  then have "map_of (rev (payload_props inp)) k = Some v" by (simp add: map_of_rev_distinct)
  then show "map_of (buildLoggerEvent nowv eventName inp) k = Some v"
    unfolding buildLoggerEvent_spread spread_lookup by simp
qed (simp_all add: envelope_lookup nullable_def or_null_def)

theorem buildLoggerEvent_payload_last_witness:
  "map_of (buildLoggerEvent ''2026-02-22T09:00:00.000Z'' ''tool_execute_before'' overwriting_input)
     ''session_id'' = Some (JString ''ses_999'')
   \<and> map_of (buildLoggerEvent ''2026-02-22T09:00:00.000Z'' ''tool_execute_before'' overwriting_input)
     ''tool'' = Some (JString ''read'')
   \<and> map_of (buildLoggerEvent ''2026-02-22T09:00:00.000Z'' ''tool_execute_before'' overwriting_input)
     ''root_session_id'' = Some (JString ''ses_123'')
   \<and> map_of (buildLoggerEvent ''2026-02-22T09:00:00.000Z'' ''tool_execute_before'' overwriting_input)
     ''agent'' \<noteq> None"
proof -
  note T = buildLoggerEvent_payload_last [where nowv = "''2026-02-22T09:00:00.000Z''"
      and eventName = "''tool_execute_before''" and inp = overwriting_input]
  have h1: "distinct (map fst (payload_props overwriting_input))
            \<and> map_of (payload_props overwriting_input) ''session_id'' = Some (JString ''ses_999'')"
    by code_simp
  have h2: "distinct (map fst (payload_props overwriting_input))
            \<and> map_of (payload_props overwriting_input) ''tool'' = Some (JString ''read'')"
    by code_simp
  have h3: "map_of (payload_props overwriting_input) ''root_session_id'' = None
            \<and> rootSessionID overwriting_input = ''ses_123''"
    by code_simp
  have h4: "''agent'' \<in> set envelope_keys" by code_simp
  have a: "map_of (buildLoggerEvent ''2026-02-22T09:00:00.000Z'' ''tool_execute_before''
             overwriting_input) ''session_id'' = Some (JString ''ses_999'')"
    using T [where k = "''session_id''" and v = "JString ''ses_999''"] h1 by blast
  have b: "map_of (buildLoggerEvent ''2026-02-22T09:00:00.000Z'' ''tool_execute_before''
             overwriting_input) ''tool'' = Some (JString ''read'')"
    using T [where k = "''tool''" and v = "JString ''read''"] h2 by blast
  have c: "map_of (buildLoggerEvent ''2026-02-22T09:00:00.000Z'' ''tool_execute_before''
             overwriting_input) ''root_session_id'' = Some (JString ''ses_123'')"
    using T [where k = "''root_session_id''"] h3 by simp
  have d: "map_of (buildLoggerEvent ''2026-02-22T09:00:00.000Z'' ''tool_execute_before''
             overwriting_input) ''agent'' \<noteq> None"
    using T [where k = "''agent''"] h4 by blast
  show ?thesis using a b c d by simp
qed

text \<open>
  Claim C7 as it stands fails: a payload with the key \<open>session_id\<close> replaces the session
  id of the envelope in the event.
\<close>

theorem payload_overwrites_session_id:
  "map_of (payload_props overwriting_input) ''session_id'' \<noteq> None
   \<and> map_of (envelope ''2026-02-22T09:00:00.000Z'' ''tool_execute_before'' overwriting_input)
        ''session_id'' = Some (JString ''ses_123'')
   \<and> map_of (buildLoggerEvent ''2026-02-22T09:00:00.000Z'' ''tool_execute_before'' overwriting_input)
        ''session_id'' = Some (JString ''ses_999'')
   \<and> map_of (buildLoggerEvent ''2026-02-22T09:00:00.000Z'' ''tool_execute_before'' overwriting_input)
        ''session_id'' \<noteq>
       map_of (envelope ''2026-02-22T09:00:00.000Z'' ''tool_execute_before'' overwriting_input)
        ''session_id''"
  by code_simp

lemma appendJsonLog_fresh:
  assumes "shouldLogScope (logger w) sc" and "log_files w = []"
    and "dir (logger w) @ ''/'' @ first_piece CHR ''T'' nowv @ ''.jsonl'' = path"
  shows "log_files (appendJsonLog str nowv sc obj w) = [(path, str (JObject obj) @ [newline])]"
  using assms(1,2) unfolding assms(3) [symmetric]
  by (simp add: appendJsonLog_def Let_def read_text_def)

text \<open>
  Claim C8, at the events of the session \<open>ses_sub\<close> of the repository's tests, whose
  parent is \<open>ses_main\<close>, a session without a parent; the nearest ancestor of \<open>ses_sub\<close>
  without a parent is \<open>ses_main\<close>. With the logger on for all scopes, the hook
  \<open>tool.execute.before\<close> and the hook \<open>chat.message\<close> each write one event for \<open>ses_sub\<close>
  to the file of the day. In both events \<open>parent_session_id\<close> is \<open>null\<close> and
  \<open>root_session_id\<close> is \<open>ses_sub\<close>, the session's own id: the hooks pass \<open>null\<close> as parent
  to the builder and look no session up.
\<close>

theorem hook_events_name_no_parent:
  "nearest_root ''ses_sub'' [''ses_main''] = ''ses_main''
   \<and> log_files (tool_execute_before \<lparr>now = now env0, stringify = str\<rparr> tool_sub tool_sub_args
                  logging_world) =
       [(''/repo/.opencode/logs/memory/2026-02-22.jsonl'',
         str (JObject
                [(''ts'', JString ''2026-02-22T09:00:00.000Z''),
                 (''event'', JString ''tool_execute_before''),
                 (''session_id'', JString ''ses_sub''),
                 (''subagent_session_id'', JString ''ses_sub''),
                 (''parent_session_id'', JNull),
                 (''root_session_id'', JString ''ses_sub''),
                 (''task_id'', JNull),
                 (''agent'', JNull),
                 (''call_id'', JString ''call_1''),
                 (''tool'', JString ''memory_remember''),
                 (''args'', JObject [(''scope'', JString ''auth''), (''content'', JString ''x''),
                                     (''type'', JString ''decision'')])])
         @ [newline])]
   \<and> log_files (chat_message \<lparr>now = now env0, stringify = str\<rparr> chat_sub (JArray [])
                  logging_world) =
       [(''/repo/.opencode/logs/memory/2026-02-22.jsonl'',
         str (JObject
                [(''ts'', JString ''2026-02-22T09:00:00.000Z''),
                 (''event'', JString ''chat_message''),
                 (''session_id'', JString ''ses_sub''),
                 (''subagent_session_id'', JString ''ses_sub''),
                 (''parent_session_id'', JNull),
                 (''root_session_id'', JString ''ses_sub''),
                 (''task_id'', JNull),
                 (''agent'', JString ''explore''),
                 (''message_id'', JString ''msg_sub''),
                 (''model'', JObject [(''providerID'', JString ''openai''),
                                      (''modelID'', JString ''gpt-5'')]),
                 (''parts'', JArray [])])
         @ [newline])]"
proof -
  have n: "nearest_root ''ses_sub'' [''ses_main''] = ''ses_main''" by code_simp
  have p: "dir loud_logger @ ''/'' @ first_piece CHR ''T'' (now env0 1) @ ''.jsonl'' =
             ''/repo/.opencode/logs/memory/2026-02-22.jsonl''"
    by code_simp
  have g: "shouldLogScope loud_logger sc" for sc
    by (simp add: shouldLogScope_def loud_logger_def)
  have e1: "buildLoggerEvent (now env0 0) ''tool_execute_before''
              \<lparr>sessionID = t_sessionID tool_sub, parentSessionID = None, taskID = None,
               agent = sessionAgents logging_world (t_sessionID tool_sub),
               payload = Some [(''call_id'', t_callID tool_sub), (''tool'', t_tool tool_sub),
                               (''args'', tool_sub_args)]\<rparr> =
            [(''ts'', JString ''2026-02-22T09:00:00.000Z''),
             (''event'', JString ''tool_execute_before''),
             (''session_id'', JString ''ses_sub''),
             (''subagent_session_id'', JString ''ses_sub''),
             (''parent_session_id'', JNull),
             (''root_session_id'', JString ''ses_sub''),
             (''task_id'', JNull),
             (''agent'', JNull),
             (''call_id'', JString ''call_1''),
             (''tool'', JString ''memory_remember''),
             (''args'', JObject [(''scope'', JString ''auth''), (''content'', JString ''x''),
                                 (''type'', JString ''decision'')])]"
    by code_simp
  have e2: "buildLoggerEvent (now env0 0) ''chat_message''
              \<lparr>sessionID = c_sessionID chat_sub, parentSessionID = None, taskID = None,
               agent = c_agent chat_sub,
               payload = Some [(''message_id'', c_messageID chat_sub),
                               (''model'', c_model chat_sub), (''parts'', JArray [])]\<rparr> =
            [(''ts'', JString ''2026-02-22T09:00:00.000Z''),
             (''event'', JString ''chat_message''),
             (''session_id'', JString ''ses_sub''),
             (''subagent_session_id'', JString ''ses_sub''),
             (''parent_session_id'', JNull),
             (''root_session_id'', JString ''ses_sub''),
             (''task_id'', JNull),
             (''agent'', JString ''explore''),
             (''message_id'', JString ''msg_sub''),
             (''model'', JObject [(''providerID'', JString ''openai''),
                                  (''modelID'', JString ''gpt-5'')]),
             (''parts'', JArray [])]"
    by code_simp
  have l: "logger logging_world = loud_logger" and f: "log_files logging_world = []"
    by (simp_all add: logging_world_def)
  have ag: "c_agent chat_sub = Some ''explore''" by (simp add: chat_sub_def)
  have t: "log_files (tool_execute_before \<lparr>now = now env0, stringify = str\<rparr> tool_sub
                        tool_sub_args logging_world) =
             [(''/repo/.opencode/logs/memory/2026-02-22.jsonl'',
               str (JObject (buildLoggerEvent (now env0 0) ''tool_execute_before''
                  \<lparr>sessionID = t_sessionID tool_sub, parentSessionID = None, taskID = None,
                   agent = sessionAgents logging_world (t_sessionID tool_sub),
                   payload = Some [(''call_id'', t_callID tool_sub), (''tool'', t_tool tool_sub),
                                   (''args'', tool_sub_args)]\<rparr>)) @ [newline])]"
    unfolding tool_execute_before_def env.select_convs
    by (rule appendJsonLog_fresh) (simp_all only: l g f p)
  have c: "log_files (chat_message \<lparr>now = now env0, stringify = str\<rparr> chat_sub (JArray [])
                        logging_world) =
             [(''/repo/.opencode/logs/memory/2026-02-22.jsonl'',
               str (JObject (buildLoggerEvent (now env0 0) ''chat_message''
                  \<lparr>sessionID = c_sessionID chat_sub, parentSessionID = None, taskID = None,
                   agent = c_agent chat_sub,
                   payload = Some [(''message_id'', c_messageID chat_sub),
                                   (''model'', c_model chat_sub), (''parts'', JArray [])]\<rparr>))
               @ [newline])]"
  proof -
    let ?w = "logging_world\<lparr>sessionAgents := (sessionAgents logging_world)(c_sessionID chat_sub \<mapsto> ''explore'')\<rparr>"
    have w1: "(case c_agent chat_sub of
                 Some a \<Rightarrow>
                   if a \<noteq> []
                   then logging_world\<lparr>sessionAgents :=
                          (sessionAgents logging_world)(c_sessionID chat_sub \<mapsto> a)\<rparr>
                   else logging_world
               | None \<Rightarrow> logging_world) = ?w"
      by (simp add: ag)
    have lw: "logger ?w = loud_logger" and fw: "log_files ?w = []"
      by (simp_all add: l f)
    show ?thesis
      unfolding chat_message_def Let_def w1 env.select_convs
      by (rule appendJsonLog_fresh) (simp_all only: lw g fw p)
  qed
  show ?thesis using n t c unfolding e1 e2 by simp
qed

text \<open>
  Claim C6, at the two events of the repository's own tests, with the logger on for all
  scopes. The chat message of the main session \<open>ses_main\<close> and the chat message of the
  session \<open>ses_sub\<close> with agent \<open>explore\<close> both go to the one file of the day in the
  logger's directory; no file \<open>main.jsonl\<close> and no file \<open>explore-ses_sub.jsonl\<close> under a
  session directory is written.
\<close>

theorem chat_message_writes_day_file:
  "map fst (log_files (chat_message env0 chat_main (JArray []) logging_world)) =
     [''/repo/.opencode/logs/memory/2026-02-22.jsonl'']
   \<and> map fst (log_files (chat_message env0 chat_sub (JArray []) logging_world)) =
     [''/repo/.opencode/logs/memory/2026-02-22.jsonl'']
   \<and> map fst (log_files (chat_message env0 chat_sub (JArray [])
                 (chat_message env0 chat_main (JArray []) logging_world))) =
     [''/repo/.opencode/logs/memory/2026-02-22.jsonl'']
   \<and> map_of (log_files (chat_message env0 chat_main (JArray []) logging_world))
        ''/repo/.opencode/memory/sessions/2026-02-21-fix-auth-bug/main.jsonl'' = None
   \<and> map_of (log_files (chat_message env0 chat_sub (JArray []) logging_world))
        ''/repo/.opencode/memory/sessions/2026-02-21-fix-auth-bug/explore-ses_sub.jsonl'' = None
   \<and> mem_files (chat_message env0 chat_sub (JArray []) logging_world) = []"
  by code_simp

end
